theory Spec2Isabelle
  imports Main "HOL-Library.Multiset"
begin

unbundle bit_operations_syntax

section \<open>Word Finder: the word store and the fetch-and-merge engine\<close>

text \<open>
  A shallow embedding of \<^verbatim>\<open>database/optimized_word_database.py\<close> (class
  \<^verbatim>\<open>OptimizedWordDatabase\<close>), of \<^verbatim>\<open>src/word_manager.py\<close> (class
  \<^verbatim>\<open>WordManager\<close>) and of \<^verbatim>\<open>WordDisplayGUI._fetch_with_limit\<close>.

  Conventions.
  \<^item> A Python \<^verbatim>\<open>str\<close> is a \<open>string\<close>; the words of the game are ASCII, so one
    \<open>char\<close> is one character and \<^verbatim>\<open>len(word)\<close> is \<open>length\<close>.
  \<^item> A Python \<^verbatim>\<open>int\<close> is an \<open>int\<close>.
  \<^item> A Python \<^verbatim>\<open>dict\<close> that the code iterates over is the list of its items, in
    insertion order; a dict has no two items with the same key.
  \<^item> A key that the code reads with \<^verbatim>\<open>d.get(k, default)\<close> or with \<^verbatim>\<open>d[k]\<close> may be
    absent from the dict, so it is an \<open>option\<close>; \<^verbatim>\<open>d[k]\<close> on an absent key raises
    \<^verbatim>\<open>KeyError\<close>.
  \<^item> A function that can raise returns \<open>py_error + 'a\<close>, with \<open>Inl\<close> for the exception.
  \<^item> A Python name with a leading underscore loses it (\<^verbatim>\<open>_should_exit\<close> is
    \<open>should_exit\<close>).
  \<^item> \<^verbatim>\<open>CURRENT_TIMESTAMP\<close> is read from a clock that the caller passes in: every
    statement of one call sees the same reading \<open>now\<close>.
  \<^item> SQLite itself is taken to work: no I/O fault and no locked file. The integers
    that the program itself passes to a query (a length, a limit, a bound on the
    points) are within the 64 bits of an SQLite integer; the points of a record come
    from outside and may not be.
\<close>

subsection \<open>Errors\<close>

datatype py_error = KeyError | ZeroDivisionError | OverflowError

subsection \<open>Encoder: dictionary memberships as bit flags\<close>

text \<open>
  The local \<^verbatim>\<open>flag_mapping\<close> of \<^verbatim>\<open>_dict_matches_to_flags\<close>, from a dictionary's name
  to its bit position.
\<close>

definition flag_mapping :: "(string \<times> nat) list" where
  "flag_mapping =
     [(''octordle'', 0), (''otcwl'', 1), (''quordle'', 2),
      (''sowpods'', 3), (''wordle'', 4), (''wwf'', 5)]"

text \<open>
  \<^verbatim>\<open>for dict_name, is_match in dict_matches.items():
      if is_match and dict_name in flag_mapping:
          flags |= (1 << flag_mapping[dict_name])\<close>
\<close>

definition dict_matches_to_flags :: "(string \<times> bool) list \<Rightarrow> int" where
  "dict_matches_to_flags dict_matches =
     fold (\<lambda>(dict_name, is_match) flags.
             if is_match then
               (case map_of flag_mapping dict_name of
                  Some bit_pos \<Rightarrow> flags OR push_bit bit_pos 1
                | None \<Rightarrow> flags)
             else flags)
          dict_matches 0"

text \<open>
  The local \<^verbatim>\<open>flag_mapping\<close> of \<^verbatim>\<open>_flags_to_dict_matches\<close>, from a bit position to
  the dictionary's name.
\<close>

definition flag_mapping_names :: "(nat \<times> string) list" where
  "flag_mapping_names =
     [(0, ''octordle''), (1, ''otcwl''), (2, ''quordle''),
      (3, ''sowpods''), (4, ''wordle''), (5, ''wwf'')]"

text \<open>
  \<^verbatim>\<open>{dict_name: bool(flags & (1 << bit_pos)) for bit_pos, dict_name in flag_mapping.items()}\<close>
\<close>

definition flags_to_dict_matches :: "int \<Rightarrow> (string \<times> bool) list" where
  "flags_to_dict_matches flags =
     map (\<lambda>(bit_pos, dict_name). (dict_name, flags AND push_bit bit_pos 1 \<noteq> 0))
         flag_mapping_names"

text \<open>The names of the dictionary registry.\<close>

definition registry_names :: "string list" where
  "registry_names = map fst flag_mapping"

text \<open>
  The round trip as the specification words it: the memberships \<open>m\<close>, extended with
  \<open>False\<close> for every registered name that \<open>m\<close> does not mention.
\<close>

definition registry_expansion :: "(string \<times> bool) list \<Rightarrow> (string \<rightharpoonup> bool)" where
  "registry_expansion m =
     (\<lambda>name. case map_of m name of
                Some b \<Rightarrow> Some b
              | None \<Rightarrow> if name \<in> set registry_names then Some False else None)"

subsection \<open>The words table\<close>

type_synonym timestamp = nat

text \<open>
  \<^verbatim>\<open>CREATE TABLE IF NOT EXISTS words (
      id INTEGER PRIMARY KEY AUTOINCREMENT,
      word TEXT NOT NULL UNIQUE,
      length INTEGER NOT NULL,
      points INTEGER NOT NULL,
      dict_flags INTEGER DEFAULT 0,
      created_at TIMESTAMP DEFAULT CURRENT_TIMESTAMP,
      updated_at TIMESTAMP DEFAULT CURRENT_TIMESTAMP)\<close>
\<close>

record row =
  row_id :: nat
  row_word :: string
  row_length :: int
  row_points :: int
  row_dict_flags :: int
  row_created_at :: timestamp
  row_updated_at :: timestamp

text \<open>
  The table holds its rows in the order in which they were inserted; \<open>seq\<close> is the
  largest id handed out so far (\<^verbatim>\<open>AUTOINCREMENT\<close>).
\<close>

record database =
  words_table :: "row list"
  seq :: nat

definition init_database :: database where
  "init_database = \<lparr>words_table = [], seq = 0\<rparr>"

text \<open>A word record as the remote service, the legacy file or a caller supplies it.\<close>

record word_info =
  wi_word :: "string option"
  wi_points :: "int option"
  wi_dict_matches :: "(string \<times> bool) list option"

text \<open>A word record as \<^verbatim>\<open>_row_to_word_dict\<close> builds it from a row.\<close>

record word_dict =
  wd_word :: string
  wd_points :: int
  wd_wildcards :: "string list"
  wd_dict_matches :: "(string \<times> bool) list"

definition row_to_word_dict :: "row \<Rightarrow> word_dict" where
  "row_to_word_dict r =
     \<lparr>wd_word = row_word r, wd_points = row_points r, wd_wildcards = [],
      wd_dict_matches = flags_to_dict_matches (row_dict_flags r)\<rparr>"

subsection \<open>Batch upsert\<close>

text \<open>
  The loop of \<^verbatim>\<open>insert_words_batch\<close> that builds \<^verbatim>\<open>word_data\<close>: one tuple
  \<^verbatim>\<open>(word, len(word), points, dict_flags)\<close> for each record; \<^verbatim>\<open>word_info['word']\<close>
  raises \<^verbatim>\<open>KeyError\<close> when the record has no word.
\<close>

fun word_data :: "word_info list \<Rightarrow> py_error + (string \<times> int \<times> int \<times> int) list" where
  "word_data [] = Inr []"
| "word_data (info # rest) =
     (let dict_flags = dict_matches_to_flags
                         (case wi_dict_matches info of None \<Rightarrow> [] | Some dm \<Rightarrow> dm)
      in case wi_word info of
           None \<Rightarrow> Inl KeyError
         | Some w \<Rightarrow>
             (case word_data rest of
                Inl e \<Rightarrow> Inl e
              | Inr tuples \<Rightarrow>
                  Inr ((w, int (length w),
                        (case wi_points info of None \<Rightarrow> 0 | Some p \<Rightarrow> p),
                        dict_flags) # tuples)))"

text \<open>
  \<^verbatim>\<open>INSERT OR REPLACE INTO words (word, length, points, dict_flags, updated_at)
  VALUES (?, ?, ?, ?, CURRENT_TIMESTAMP)\<close>
  for one tuple. A row that holds the same word violates \<^verbatim>\<open>UNIQUE\<close>; \<^verbatim>\<open>REPLACE\<close>
  deletes it and then inserts the new row. The new row gets a fresh id, and the
  columns that the statement does not list get their defaults, so \<^verbatim>\<open>created_at\<close> is
  \<^verbatim>\<open>CURRENT_TIMESTAMP\<close> too.
\<close>

definition insert_or_replace ::
  "timestamp \<Rightarrow> (string \<times> int \<times> int \<times> int) \<Rightarrow> database \<Rightarrow> database" where
  "insert_or_replace now tuple d =
     (case tuple of (w, len, points, dict_flags) \<Rightarrow>
        \<lparr>words_table = filter (\<lambda>r. row_word r \<noteq> w) (words_table d) @
             [\<lparr>row_id = Suc (seq d), row_word = w, row_length = len,
               row_points = points, row_dict_flags = dict_flags,
               row_created_at = now, row_updated_at = now\<rparr>],
         seq = Suc (seq d)\<rparr>)"

text \<open>
  An SQLite integer has 64 bits. Binding a Python \<^verbatim>\<open>int\<close> outside this range to a
  statement raises \<^verbatim>\<open>OverflowError\<close>.
\<close>

definition sqlite_integer :: "int \<Rightarrow> bool" where
  "sqlite_integer n \<longleftrightarrow> - (2 ^ 63) \<le> n \<and> n < 2 ^ 63"

text \<open>
  \<^verbatim>\<open>insert_words_batch\<close>: an empty batch returns 0 and leaves the store alone;
  otherwise \<^verbatim>\<open>executemany\<close> runs the statement once for each tuple, in order, and
  \<^verbatim>\<open>rowcount\<close> is the number of statements run. Of the four values of a tuple only
  the points can be too large to bind: the length and the flags are small. An
  exception, in the loop or in a statement, leaves the store as it was (the
  connection's context manager rolls back).
\<close>

definition insert_words_batch ::
  "database \<Rightarrow> word_info list \<Rightarrow> timestamp \<Rightarrow> py_error + (nat \<times> database)" where
  "insert_words_batch d ws now =
     (if ws = [] then Inr (0, d)
      else case word_data ws of
             Inl e \<Rightarrow> Inl e
           | Inr tuples \<Rightarrow>
               if list_all (\<lambda>(w, len, points, dict_flags). sqlite_integer points) tuples
               then Inr (length tuples, fold (insert_or_replace now) tuples d)
               else Inl OverflowError)"

subsection \<open>Queries\<close>

text \<open>
  \<^verbatim>\<open>ORDER BY points DESC\<close>: rows with more points first. SQL leaves the order of
  rows with equal points open, and the engine decides it by the index it walks. For
  \<^verbatim>\<open>WHERE length = ?\<close> it walks \<^verbatim>\<open>idx_length_points\<close>, which is on
  \<^verbatim>\<open>(length, points DESC)\<close>, forwards: rows with equal points come in table order.
\<close>

definition order_by_points_desc :: "row list \<Rightarrow> row list" where
  "order_by_points_desc rs = sort_key (\<lambda>r. - row_points r) rs"

text \<open>
  Without a condition on the length it walks \<^verbatim>\<open>idx_points\<close>, which is ascending,
  backwards: rows with equal points come with the row inserted last first.
\<close>

definition order_by_points_desc_backwards :: "row list \<Rightarrow> row list" where
  "order_by_points_desc_backwards rs = rev (sort_key row_points rs)"

text \<open>\<^verbatim>\<open>LIMIT n\<close>: the first \<open>n\<close> rows; a negative \<open>n\<close> is no limit.\<close>

definition sql_limit :: "int \<Rightarrow> 'a list \<Rightarrow> 'a list" where
  "sql_limit n rs = (if n < 0 then rs else take (nat n) rs)"

text \<open>
  \<^verbatim>\<open>get_words_by_length(length, limit=None)\<close>. The \<^verbatim>\<open>LIMIT\<close> clause is added under
  \<^verbatim>\<open>if limit:\<close>, which is false for \<^verbatim>\<open>None\<close> and for 0.
\<close>

definition get_words_by_length :: "database \<Rightarrow> int \<Rightarrow> int option \<Rightarrow> word_dict list" where
  "get_words_by_length d len limit =
     (let selected = order_by_points_desc (filter (\<lambda>r. row_length r = len) (words_table d))
      in map row_to_word_dict
           (case limit of
              None \<Rightarrow> selected
            | Some n \<Rightarrow> if n \<noteq> 0 then sql_limit n selected else selected))"

text \<open>
  \<^verbatim>\<open>SELECT length, COUNT(*) as count FROM words GROUP BY length ORDER BY length\<close>,
  as the dict \<^verbatim>\<open>{row['length']: row['count']}\<close>.
\<close>

definition get_length_distribution :: "database \<Rightarrow> (int \<times> nat) list" where
  "get_length_distribution d =
     map (\<lambda>len. (len, length (filter (\<lambda>r. row_length r = len) (words_table d))))
         (sort (remdups (map row_length (words_table d))))"

subsection \<open>Search\<close>

text \<open>
  SQLite's \<^verbatim>\<open>LIKE\<close> operator, \<open>like pattern text\<close>: in the pattern \<^verbatim>\<open>%\<close> matches
  any sequence of characters, \<^verbatim>\<open>_\<close> matches exactly one character, and every other
  character matches itself, upper and lower case ASCII letters being the same.
\<close>

definition ascii_lower :: "char \<Rightarrow> char" where
  "ascii_lower c =
     (case map_of (zip ''ABCDEFGHIJKLMNOPQRSTUVWXYZ'' ''abcdefghijklmnopqrstuvwxyz'') c of
        Some l \<Rightarrow> l
      | None \<Rightarrow> c)"

fun like :: "string \<Rightarrow> string \<Rightarrow> bool" where
  "like [] text = (text = [])"
| "like (p # ps) [] = (p = CHR ''%'' \<and> like ps [])"
| "like (p # ps) (c # cs) =
     (if p = CHR ''%'' then like ps (c # cs) \<or> like (p # ps) cs
      else (p = CHR ''_'' \<or> ascii_lower p = ascii_lower c) \<and> like ps cs)"

text \<open>
  \<^verbatim>\<open>search_words(pattern, min_points, max_points, contains)\<close>. A filter is added
  under \<^verbatim>\<open>if pattern:\<close> and \<^verbatim>\<open>if contains:\<close>, false for \<^verbatim>\<open>None\<close> and for the empty
  string, and under \<^verbatim>\<open>is not None\<close> for the two bounds. The pattern is the parameter
  of \<^verbatim>\<open>word LIKE ?\<close> as the caller gave it.
\<close>

definition search_words ::
  "database \<Rightarrow> string option \<Rightarrow> int option \<Rightarrow> int option \<Rightarrow> string option \<Rightarrow> word_dict list" where
  "search_words d pattern min_points max_points contains =
     map row_to_word_dict
       (order_by_points_desc_backwards
          (filter (\<lambda>r.
             (case pattern of
                None \<Rightarrow> True
              | Some p \<Rightarrow> if p \<noteq> [] then like p (row_word r) else True) \<and>
             (case min_points of None \<Rightarrow> True | Some lo \<Rightarrow> lo \<le> row_points r) \<and>
             (case max_points of None \<Rightarrow> True | Some hi \<Rightarrow> row_points r \<le> hi) \<and>
             (case contains of
                None \<Rightarrow> True
              | Some c \<Rightarrow> if c \<noteq> [] then like (''%'' @ c @ ''%'') (row_word r) else True))
             (words_table d)))"

text \<open>
  The wildcard matching of the specification, \<open>wildcard_match pattern text\<close>:
  \<^verbatim>\<open>?\<close> matches exactly one character, \<^verbatim>\<open>*\<close> matches any sequence, and every
  other character matches itself.
\<close>

fun wildcard_match :: "string \<Rightarrow> string \<Rightarrow> bool" where
  "wildcard_match [] text = (text = [])"
| "wildcard_match (p # ps) [] = (p = CHR ''*'' \<and> wildcard_match ps [])"
| "wildcard_match (p # ps) (c # cs) =
     (if p = CHR ''*'' then wildcard_match ps (c # cs) \<or> wildcard_match (p # ps) cs
      else (p = CHR ''?'' \<or> p = c) \<and> wildcard_match ps cs)"

subsection \<open>The word manager\<close>

text \<open>
  The remote service answers a request, identified by its parameters, with a JSON
  document or with a failure of the request. While the request is in flight the user
  may ask to stop (a signal, or the window's cancel button); \<open>signalled\<close> says so.
  A stop asked for during a pause is seen at the same check as one asked for during the
  request before the pause, so the model has none of its own. An interrupt reaches the
  code through the handler's flag only; the \<^verbatim>\<open>except KeyboardInterrupt\<close> branches, for
  a process without handler, are left out.
\<close>

record page =
  num_pages :: "int option"
  num_words :: "int option"
  word_list :: "word_info list option"

datatype response = RequestError | WordPages "page list"

record reply =
  outcome :: response
  signalled :: bool

record params =
  p_length :: int
  p_page_size :: int
  p_page_token :: "int option"

type_synonym remote = "params \<Rightarrow> reply"

text \<open>
  What the model keeps of a \<^verbatim>\<open>WordManager\<close>: \<open>signal_handler\<close> is \<open>None\<close> when the
  manager has no handler and \<open>Some flag\<close> when it has one whose \<^verbatim>\<open>should_exit\<close> is
  \<open>flag\<close>; \<open>store\<close> is the database behind \<^verbatim>\<open>self.db\<close>. Two logs record, in order,
  the calls of \<^verbatim>\<open>merge_with_database\<close> (batch, length, \<^verbatim>\<open>is_partial\<close>) and the requests
  sent to the remote service, each with the number of words collected when it was sent.
\<close>

record manager =
  signal_handler :: "bool option"
  store :: database
  merge_log :: "(word_info list \<times> int \<times> bool) list"
  request_log :: "(params \<times> nat) list"

text \<open>\<^verbatim>\<open>self.signal_handler.is_exit_requested() if self.signal_handler else False\<close>\<close>

definition should_exit :: "manager \<Rightarrow> bool" where
  "should_exit m = (case signal_handler m of None \<Rightarrow> False | Some flag \<Rightarrow> flag)"

text \<open>\<^verbatim>\<open>if self.signal_handler: self.signal_handler.should_exit = True\<close>\<close>

definition request_exit :: "manager \<Rightarrow> manager" where
  "request_exit m = m\<lparr>signal_handler := map_option (\<lambda>flag. True) (signal_handler m)\<rparr>"

text \<open>
  \<^verbatim>\<open>await client.get(self.base_url, params=...)\<close> followed by \<^verbatim>\<open>.json()\<close>: the
  request is logged, and a stop asked for meanwhile sets the handler's flag.
\<close>

definition do_request :: "remote \<Rightarrow> params \<Rightarrow> nat \<Rightarrow> manager \<Rightarrow> response \<times> manager" where
  "do_request remote ps collected m =
     (let r = remote ps;
          m1 = (if signalled r then request_exit m else m)
      in (outcome r, m1\<lparr>request_log := request_log m1 @ [(ps, collected)]\<rparr>))"

text \<open>
  \<^verbatim>\<open>merge_with_database(new_words, length, is_partial)\<close>. An empty batch returns
  \<^verbatim>\<open>False\<close>. Otherwise the three store calls run inside \<^verbatim>\<open>try\<close>, and
  \<^verbatim>\<open>except Exception\<close> prints the error and returns \<^verbatim>\<open>False\<close>. The two reads only
  feed messages. \<^verbatim>\<open>get_database_size\<close> catches its own exceptions and also only feeds
  a message.
\<close>

definition merge_with_database ::
  "manager \<Rightarrow> word_info list \<Rightarrow> int \<Rightarrow> bool \<Rightarrow> timestamp \<Rightarrow> py_error + (bool \<times> manager)" where
  "merge_with_database m new_words len is_partial now =
     (let m0 = m\<lparr>merge_log := merge_log m @ [(new_words, len, is_partial)]\<rparr>
      in if new_words = [] then Inr (False, m0)
         else
           (case (let existing_words = get_words_by_length (store m0) len None
                  in case insert_words_batch (store m0) new_words now of
                       Inl e \<Rightarrow> Inl e
                     | Inr (rows_inserted, d) \<Rightarrow>
                         (let updated_words = get_words_by_length d len None
                          in Inr d)) of
              Inl e \<Rightarrow> Inr (False, m0)
            | Inr d \<Rightarrow> Inr (True, m0\<lparr>store := d\<rparr>)))"

text \<open>
  A call \<^verbatim>\<open>self.merge_with_database(all_words, length, is_partial=...)\<close> whose result
  the caller drops.
\<close>

definition merged :: "manager \<Rightarrow> word_info list \<Rightarrow> int \<Rightarrow> bool \<Rightarrow> timestamp \<Rightarrow> manager" where
  "merged m all_words len is_partial now =
     (case merge_with_database m all_words len is_partial now of
        Inr (ok, m1) \<Rightarrow> m1
      | Inl e \<Rightarrow> m)"

subsection \<open>Fetching one length\<close>

text \<open>
  The page loop of \<^verbatim>\<open>fetch_all_words\<close>,
  \<^verbatim>\<open>for page_num in range(2, total_pages + 1)\<close>, over the page numbers still to
  come. A \<^verbatim>\<open>break\<close> returns at once; the code after the loop is in
  \<open>fetch_all_words\<close> below. The pause between two pages changes nothing here.
\<close>

fun fetch_remaining_pages ::
  "remote \<Rightarrow> timestamp \<Rightarrow> int \<Rightarrow> int \<Rightarrow> int list \<Rightarrow> manager \<Rightarrow> word_info list
     \<Rightarrow> manager \<times> word_info list" where
  "fetch_remaining_pages remote now len page_size [] m all_words = (m, all_words)"
| "fetch_remaining_pages remote now len page_size (page_num # rest) m all_words =
     (if should_exit m then (merged m all_words len True now, all_words)
      else
        (let sent = do_request remote
                      \<lparr>p_length = len, p_page_size = page_size,
                       p_page_token = Some (page_num - 1)\<rparr>
                      (length all_words) m;
             m1 = snd sent
         in case fst sent of
              WordPages page_word_pages \<Rightarrow>
                fetch_remaining_pages remote now len page_size rest m1
                  (case page_word_pages of
                     [] \<Rightarrow> all_words
                   | first_page # others \<Rightarrow>
                       all_words @
                       (case word_list first_page of None \<Rightarrow> [] | Some page_words \<Rightarrow> page_words))
            | RequestError \<Rightarrow>
                if should_exit m1 then (merged m1 all_words len True now, all_words)
                else fetch_remaining_pages remote now len page_size rest m1 all_words))"

text \<open>
  \<^verbatim>\<open>fetch_all_words(length, page_size, show_cached=False)\<close>; with \<^verbatim>\<open>show_cached\<close> the
  window of the cached words comes first, which is not part of the engine. A failure
  of the first request is caught by the outer \<^verbatim>\<open>except Exception\<close>, which asks the
  handler to stop and, \<^verbatim>\<open>all_words\<close> being empty, merges nothing.
\<close>

definition fetch_all_words ::
  "remote \<Rightarrow> timestamp \<Rightarrow> manager \<Rightarrow> int \<Rightarrow> int \<Rightarrow> manager \<times> word_info list" where
  "fetch_all_words remote now m len page_size =
     (if should_exit m then (m, [])
      else
        (let sent = do_request remote
                      \<lparr>p_length = len, p_page_size = page_size, p_page_token = None\<rparr> 0 m;
             m1 = snd sent
         in case fst sent of
              RequestError \<Rightarrow> (request_exit m1, [])
            | WordPages word_pages \<Rightarrow>
                (case word_pages of
                   [] \<Rightarrow> (m1, [])
                 | first_page # others \<Rightarrow>
                     (let total_pages = (case num_pages first_page of None \<Rightarrow> 1 | Some n \<Rightarrow> n);
                          all_words = (case word_list first_page of None \<Rightarrow> [] | Some ws \<Rightarrow> ws)
                      in if should_exit m1 then (merged m1 all_words len True now, all_words)
                         else
                           (case fetch_remaining_pages remote now len page_size
                                   [2..total_pages] m1 all_words of
                              (m2, collected) \<Rightarrow>
                                if should_exit m2 then (m2, collected)
                                else (merged m2 collected len False now, collected))))))"

subsection \<open>Fetching one length up to a word cap\<close>

text \<open>The slice \<^verbatim>\<open>xs[:k]\<close>; a negative \<open>k\<close> counts from the end.\<close>

definition py_prefix :: "int \<Rightarrow> 'a list \<Rightarrow> 'a list" where
  "py_prefix k xs = (if 0 \<le> k then take (nat k) xs else take (nat (int (length xs) + k)) xs)"

text \<open>
  The page loop of \<^verbatim>\<open>_fetch_with_limit\<close>. \<^verbatim>\<open>if max_words:\<close> is false for 0.
\<close>

fun limit_remaining_pages ::
  "remote \<Rightarrow> timestamp \<Rightarrow> int \<Rightarrow> int \<Rightarrow> int \<Rightarrow> int \<Rightarrow> int list \<Rightarrow> manager \<Rightarrow> word_info list
     \<Rightarrow> int \<Rightarrow> manager \<times> word_info list" where
  "limit_remaining_pages remote now len page_size max_words actual_pages_to_fetch []
     m all_words pages_fetched = (m, all_words)"
| "limit_remaining_pages remote now len page_size max_words actual_pages_to_fetch
     (page_num # rest) m all_words pages_fetched =
     (if should_exit m then (merged m all_words len True now, all_words)
      else
        (let sent = do_request remote
                      \<lparr>p_length = len, p_page_size = page_size,
                       p_page_token = Some (page_num - 1)\<rparr>
                      (length all_words) m;
             m1 = snd sent
         in case fst sent of
              WordPages page_word_pages \<Rightarrow>
                (case page_word_pages of
                   first_page # others \<Rightarrow>
                     (let page_words =
                            (case word_list first_page of None \<Rightarrow> [] | Some ws \<Rightarrow> ws)
                      in if max_words \<noteq> 0 then
                           (let remaining_slots = max_words - int (length all_words);
                                words_to_add = min (int (length page_words)) remaining_slots;
                                extended = all_words @ py_prefix words_to_add page_words
                            in if max_words \<le> int (length extended) then (m1, extended)
                               else if actual_pages_to_fetch \<le> pages_fetched + 1
                               then (m1, extended)
                               else limit_remaining_pages remote now len page_size max_words
                                      actual_pages_to_fetch rest m1 extended (pages_fetched + 1))
                         else limit_remaining_pages remote now len page_size max_words
                                actual_pages_to_fetch rest m1 (all_words @ page_words)
                                (pages_fetched + 1))
                 | [] \<Rightarrow>
                     if max_words \<noteq> 0 \<and> actual_pages_to_fetch \<le> pages_fetched + 1
                     then (m1, all_words)
                     else limit_remaining_pages remote now len page_size max_words
                            actual_pages_to_fetch rest m1 all_words (pages_fetched + 1))
            | RequestError \<Rightarrow>
                if should_exit m1 then (merged m1 all_words len True now, all_words)
                else limit_remaining_pages remote now len page_size max_words
                       actual_pages_to_fetch rest m1 all_words pages_fetched))"

text \<open>
  \<^verbatim>\<open>_fetch_with_limit(length, max_words)\<close>, with the window's \<^verbatim>\<open>fetch_page_size\<close> as a
  parameter. \<^verbatim>\<open>(max_words + page_size - 1) // page_size\<close> raises
  \<^verbatim>\<open>ZeroDivisionError\<close> for a page size of 0; the outer \<^verbatim>\<open>except Exception\<close> catches it
  as it catches a failure of the first request. After the loop the words are merged
  once more, as partial when the cap is reached or a stop was asked for.
\<close>

definition estimated_pages :: "int \<Rightarrow> int \<Rightarrow> py_error + int" where
  "estimated_pages max_words page_size =
     (if page_size = 0 then Inl ZeroDivisionError
      else Inr ((max_words + page_size - 1) div page_size))"

definition fetch_with_limit ::
  "remote \<Rightarrow> timestamp \<Rightarrow> manager \<Rightarrow> int \<Rightarrow> int \<Rightarrow> int \<Rightarrow> manager \<times> word_info list" where
  "fetch_with_limit remote now m len page_size max_words =
     (if should_exit m then (m, [])
      else
        (let sent = do_request remote
                      \<lparr>p_length = len, p_page_size = page_size, p_page_token = None\<rparr> 0 m;
             m1 = snd sent
         in case fst sent of
              RequestError \<Rightarrow> (request_exit m1, [])
            | WordPages word_pages \<Rightarrow>
                (case word_pages of
                   [] \<Rightarrow> (m1, [])
                 | first_page # others \<Rightarrow>
                     (let total_pages = (case num_pages first_page of None \<Rightarrow> 1 | Some n \<Rightarrow> n);
                          total_words = (case num_words first_page of None \<Rightarrow> 0 | Some n \<Rightarrow> n)
                      in case (if max_words \<noteq> 0 \<and> max_words < total_words
                               then (case estimated_pages max_words page_size of
                                       Inl e \<Rightarrow> Inl e
                                     | Inr estimated \<Rightarrow> Inr (min estimated total_pages))
                               else Inr total_pages) of
                           Inl e \<Rightarrow> (request_exit m1, [])
                         | Inr actual_pages_to_fetch \<Rightarrow>
                             (let first_page_words =
                                    (case word_list first_page of None \<Rightarrow> [] | Some ws \<Rightarrow> ws);
                                  words_to_add =
                                    (if max_words \<noteq> 0
                                     then min (int (length first_page_words)) max_words
                                     else int (length first_page_words));
                                  all_words = py_prefix words_to_add first_page_words
                              in if max_words \<noteq> 0 \<and> max_words \<le> int (length all_words)
                                 then (merged m1 all_words len True now, all_words)
                                 else if should_exit m1
                                 then (merged m1 all_words len True now, all_words)
                                 else
                                   (case limit_remaining_pages remote now len page_size
                                           max_words actual_pages_to_fetch
                                           [2..total_pages] m1 all_words 1 of
                                      (m2, collected) \<Rightarrow>
                                        (merged m2 collected len
                                           ((max_words \<noteq> 0 \<and>
                                             max_words \<le> int (length collected)) \<or>
                                            should_exit m2)
                                           now,
                                         collected)))))))"

subsection \<open>Fetching several lengths in sequence\<close>

text \<open>
  \<^verbatim>\<open>_fetch_single_length_with_progress\<close> repeats the body of \<^verbatim>\<open>fetch_all_words\<close>
  statement for statement and adds calls of \<^verbatim>\<open>progress_callback\<close> and a prefix to the
  messages. A progress callback reports only; it does not touch the manager.
\<close>

definition fetch_single_length_with_progress ::
  "remote \<Rightarrow> timestamp \<Rightarrow> manager \<Rightarrow> int \<Rightarrow> int \<Rightarrow> manager \<times> word_info list" where
  "fetch_single_length_with_progress remote now m len page_size =
     fetch_all_words remote now m len page_size"

text \<open>
  The loop of \<^verbatim>\<open>fetch_multiple_lengths_sequential\<close>,
  \<^verbatim>\<open>for i, length in enumerate(lengths)\<close>, with \<^verbatim>\<open>results[length] = words\<close>. The
  fetch of one length catches every exception itself, so the loop's own
  \<^verbatim>\<open>except Exception\<close>, which stores an empty list, has nothing to catch. The pause
  between two lengths changes nothing here.
\<close>

fun sequential_lengths ::
  "remote \<Rightarrow> timestamp \<Rightarrow> int \<Rightarrow> int list \<Rightarrow> manager \<Rightarrow> (int \<rightharpoonup> word_info list)
     \<Rightarrow> manager \<times> (int \<rightharpoonup> word_info list)" where
  "sequential_lengths remote now page_size [] m results = (m, results)"
| "sequential_lengths remote now page_size (len # rest) m results =
     (case fetch_single_length_with_progress remote now m len page_size of
        (m1, found) \<Rightarrow>
          sequential_lengths remote now page_size rest m1 (results(len \<mapsto> found)))"

definition fetch_multiple_lengths_sequential ::
  "remote \<Rightarrow> timestamp \<Rightarrow> manager \<Rightarrow> int list \<Rightarrow> int
     \<Rightarrow> manager \<times> (int \<rightharpoonup> word_info list)" where
  "fetch_multiple_lengths_sequential remote now m lengths page_size =
     sequential_lengths remote now page_size lengths m Map.empty"

subsection \<open>Stores that the write path can produce\<close>

text \<open>
  Every write to the words table goes through \<^verbatim>\<open>insert_words_batch\<close>: the merge
  pipeline and the legacy importer both call it. A store is reachable when a sequence
  of successful batch upserts produces it from the empty table.
\<close>

inductive reachable :: "database \<Rightarrow> bool" where
  reachable_init: "reachable init_database"
| reachable_insert:
    "reachable d \<Longrightarrow> insert_words_batch d ws now = Inr (n, d1) \<Longrightarrow> reachable d1"

text \<open>The tuple that the loop of \<^verbatim>\<open>insert_words_batch\<close> builds for a record with a word.\<close>

definition tuple_of :: "word_info \<Rightarrow> string \<times> int \<times> int \<times> int" where
  "tuple_of info =
     (the (wi_word info), int (length (the (wi_word info))),
      (case wi_points info of None \<Rightarrow> 0 | Some p \<Rightarrow> p),
      dict_matches_to_flags (case wi_dict_matches info of None \<Rightarrow> [] | Some dm \<Rightarrow> dm))"

text \<open>
  The two invariants of the words table: no word twice (the \<^verbatim>\<open>UNIQUE\<close> constraint),
  and every row's length is the length of its word.
\<close>

definition store_ok :: "database \<Rightarrow> bool" where
  "store_ok d \<longleftrightarrow>
     distinct (map row_word (words_table d)) \<and>
     (\<forall>r\<in>set (words_table d). row_length r = int (length (row_word r)))"

subsection \<open>Auxiliary notions for the fetch loops\<close>

text \<open>
  The state of the page loop of \<^verbatim>\<open>fetch_all_words\<close> at the top of the iteration that
  follows the pages \<open>done\<close>, when none of these iterations left the loop: the same
  steps as \<open>fetch_remaining_pages\<close>, with \<open>None\<close> for a \<^verbatim>\<open>break\<close>.
\<close>

fun pages_run ::
  "remote \<Rightarrow> int \<Rightarrow> int \<Rightarrow> int list \<Rightarrow> manager \<Rightarrow> word_info list
     \<Rightarrow> (manager \<times> word_info list) option" where
  "pages_run remote len page_size [] m all_words = Some (m, all_words)"
| "pages_run remote len page_size (page_num # rest) m all_words =
     (if should_exit m then None
      else
        (let sent = do_request remote
                      \<lparr>p_length = len, p_page_size = page_size,
                       p_page_token = Some (page_num - 1)\<rparr>
                      (length all_words) m;
             m1 = snd sent
         in case fst sent of
              WordPages page_word_pages \<Rightarrow>
                pages_run remote len page_size rest m1
                  (case page_word_pages of
                     [] \<Rightarrow> all_words
                   | first_page # others \<Rightarrow>
                       all_words @
                       (case word_list first_page of None \<Rightarrow> [] | Some page_words \<Rightarrow> page_words))
            | RequestError \<Rightarrow>
                if should_exit m1 then None
                else pages_run remote len page_size rest m1 all_words))"

text \<open>
  What the word cap asks of a run that starts in \<open>m\<close> and ends with \<open>result\<close>: at most
  \<open>max_words\<close> words collected, every request sent while fewer than \<open>max_words\<close> words
  were collected, and no merge yet when the cap is reached.
\<close>

definition capped :: "int \<Rightarrow> manager \<Rightarrow> manager \<times> word_info list \<Rightarrow> bool" where
  "capped max_words m result \<longleftrightarrow>
     int (length (snd result)) \<le> max_words \<and>
     (\<exists>new. request_log (fst result) = request_log m @ new \<and>
            (\<forall>e\<in>set new. int (snd e) < max_words)) \<and>
     (max_words \<le> int (length (snd result)) \<longrightarrow> merge_log (fst result) = merge_log m)"

subsection \<open>Example data\<close>

text \<open>
  The word \<^verbatim>\<open>abcd\<close> with 10 points and no memberships, the same word with 7 points
  and a membership, and the store after the first and after both are upserted, at
  the clock readings 100 and 200. Further down, a second word \<^verbatim>\<open>efgh\<close> and the
  store after a second batch that holds both.
\<close>

abbreviation abcd_first :: word_info where
  "abcd_first \<equiv> \<lparr>wi_word = Some ''abcd'', wi_points = Some 10, wi_dict_matches = None\<rparr>"

abbreviation abcd_second :: word_info where
  "abcd_second \<equiv>
     \<lparr>wi_word = Some ''abcd'', wi_points = Some 7,
      wi_dict_matches = Some [(''wordle'', True)]\<rparr>"

abbreviation store_after_first :: database where
  "store_after_first \<equiv>
     \<lparr>words_table =
        [\<lparr>row_id = 1, row_word = ''abcd'', row_length = 4, row_points = 10,
          row_dict_flags = 0, row_created_at = 100, row_updated_at = 100\<rparr>],
      seq = 1\<rparr>"

abbreviation store_after_second :: database where
  "store_after_second \<equiv>
     \<lparr>words_table =
        [\<lparr>row_id = 2, row_word = ''abcd'', row_length = 4, row_points = 7,
          row_dict_flags = 16, row_created_at = 200, row_updated_at = 200\<rparr>],
      seq = 2\<rparr>"

text \<open>A store that holds the word \<^verbatim>\<open>abc\<close>, and a manager that has done nothing yet.\<close>

abbreviation abc_info :: word_info where
  "abc_info \<equiv> \<lparr>wi_word = Some ''abc'', wi_points = Some 5, wi_dict_matches = None\<rparr>"

abbreviation abc_store :: database where
  "abc_store \<equiv>
     \<lparr>words_table =
        [\<lparr>row_id = 1, row_word = ''abc'', row_length = 3, row_points = 5,
          row_dict_flags = 0, row_created_at = 1, row_updated_at = 1\<rparr>],
      seq = 1\<rparr>"

abbreviation wordless_info :: word_info where
  "wordless_info \<equiv> \<lparr>wi_word = None, wi_points = Some 5, wi_dict_matches = None\<rparr>"

abbreviation fresh_manager :: "bool option \<Rightarrow> manager" where
  "fresh_manager handler \<equiv>
     \<lparr>signal_handler = handler, store = init_database, merge_log = [], request_log = []\<rparr>"

text \<open>
  The remote service of the specification's scenario: for length 4 it has three pages
  of two words each, and every request for another length fails. The user asks to
  stop while the request for page \<open>stop_page\<close> is in flight (never, for 0).
\<close>

abbreviation scored :: "string \<Rightarrow> int \<Rightarrow> word_info" where
  "scored w p \<equiv> \<lparr>wi_word = Some w, wi_points = Some p, wi_dict_matches = None\<rparr>"

abbreviation page_of :: "word_info list \<Rightarrow> page" where
  "page_of ws \<equiv> \<lparr>num_pages = Some 3, num_words = Some 6, word_list = Some ws\<rparr>"

abbreviation three_pages :: "int \<Rightarrow> remote" where
  "three_pages stop_page ps \<equiv>
     \<lparr>outcome =
        (if p_length ps = 4 then
           (case p_page_token ps of
              None \<Rightarrow> WordPages [page_of [scored ''abcd'' 10, scored ''efgh'' 7]]
            | Some t \<Rightarrow>
                if t = 1 then WordPages [page_of [scored ''ijkl'' 9, scored ''mnop'' 3]]
                else if t = 2 then WordPages [page_of [scored ''qrst'' 5, scored ''uvwx'' 1]]
                else WordPages [])
         else RequestError),
      signalled =
        (p_length ps = 4 \<and>
         (case p_page_token ps of None \<Rightarrow> stop_page = 1 | Some t \<Rightarrow> stop_page = t + 1))\<rparr>"

abbreviation first_request :: params where
  "first_request \<equiv> \<lparr>p_length = 4, p_page_size = 2, p_page_token = None\<rparr>"

abbreviation page_request :: "int \<Rightarrow> params" where
  "page_request t \<equiv> \<lparr>p_length = 4, p_page_size = 2, p_page_token = Some t\<rparr>"

abbreviation page_one :: "word_info list" where
  "page_one \<equiv> [scored ''abcd'' 10, scored ''efgh'' 7]"

abbreviation two_pages :: "word_info list" where
  "two_pages \<equiv> [scored ''abcd'' 10, scored ''efgh'' 7, scored ''ijkl'' 9, scored ''mnop'' 3]"

abbreviation all_pages :: "word_info list" where
  "all_pages \<equiv> [scored ''abcd'' 10, scored ''efgh'' 7, scored ''ijkl'' 9, scored ''mnop'' 3,
                 scored ''qrst'' 5, scored ''uvwx'' 1]"

abbreviation stored_row :: "nat \<Rightarrow> string \<Rightarrow> int \<Rightarrow> row" where
  "stored_row i w p \<equiv>
     \<lparr>row_id = i, row_word = w, row_length = 4, row_points = p, row_dict_flags = 0,
      row_created_at = 50, row_updated_at = 50\<rparr>"

abbreviation six_word_store :: database where
  "six_word_store \<equiv>
     \<lparr>words_table = [stored_row 1 ''abcd'' 10, stored_row 2 ''efgh'' 7,
                     stored_row 3 ''ijkl'' 9, stored_row 4 ''mnop'' 3,
                     stored_row 5 ''qrst'' 5, stored_row 6 ''uvwx'' 1], seq = 6\<rparr>"

abbreviation efgh_new :: word_info where
  "efgh_new \<equiv> \<lparr>wi_word = Some ''efgh'', wi_points = Some 3, wi_dict_matches = None\<rparr>"

abbreviation store_after_second_and_new :: database where
  "store_after_second_and_new \<equiv>
     \<lparr>words_table =
        [\<lparr>row_id = 2, row_word = ''abcd'', row_length = 4, row_points = 7,
          row_dict_flags = 16, row_created_at = 200, row_updated_at = 200\<rparr>,
         \<lparr>row_id = 3, row_word = ''efgh'', row_length = 4, row_points = 3,
          row_dict_flags = 0, row_created_at = 200, row_updated_at = 200\<rparr>],
      seq = 3\<rparr>"

section \<open>Properties of the encoder\<close>

lemma bit_fold_flags:
  "bit (fold (\<lambda>(dict_name, is_match) flags.
                 if is_match then
                   (case map_of flag_mapping dict_name of
                      Some bit_pos \<Rightarrow> flags OR push_bit bit_pos 1
                    | None \<Rightarrow> flags)
                 else flags) m (acc::int)) k
   \<longleftrightarrow> bit acc k \<or> (\<exists>name. (name, True) \<in> set m \<and> map_of flag_mapping name = Some k)"
proof (induction m arbitrary: acc)
  case Nil
  then show ?case by simp
next
  case (Cons a m)
  obtain name b where a: "a = (name, b)" by (cases a)
  show ?case
    by (auto simp: a Cons.IH bit_or_iff bit_exp_iff split: option.splits)
qed

lemma bit_dict_matches_to_flags:
  "bit (dict_matches_to_flags m) k \<longleftrightarrow>
     (\<exists>name. (name, True) \<in> set m \<and> map_of flag_mapping name = Some k)"
  by (simp add: dict_matches_to_flags_def bit_fold_flags)

lemma flag_test: "(flags AND push_bit k 1 \<noteq> 0) = bit (flags::int) k"
  by (simp add: bit_iff_and_push_bit_not_eq_0)

lemma flags_to_dict_matches_at:
  "map_of (flags_to_dict_matches flags) name =
     (case map_of flag_mapping name of None \<Rightarrow> None | Some k \<Rightarrow> Some (bit flags k))"
  unfolding flags_to_dict_matches_def flag_test
  by (simp add: flag_mapping_names_def flag_mapping_def)

lemma flag_mapping_inj:
  "map_of flag_mapping a = Some k \<Longrightarrow> map_of flag_mapping b = Some k \<Longrightarrow> a = b"
proof -
  have d: "distinct (map snd flag_mapping)" by (simp add: flag_mapping_def)
  assume "map_of flag_mapping a = Some k" "map_of flag_mapping b = Some k"
  then have "(a, k) \<in> set flag_mapping" "(b, k) \<in> set flag_mapping"
    by (auto dest: map_of_SomeD)
  moreover from d have "inj_on snd (set flag_mapping)"
    by (simp only: distinct_map)
  ultimately have "(a, k) = (b, k)"
    using inj_onD [of snd "set flag_mapping" "(a, k)" "(b, k)"] by simp
  then show ?thesis by simp
qed

lemma registered_iff:
  "name \<in> set registry_names \<longleftrightarrow> map_of flag_mapping name \<noteq> None"
  by (simp add: registry_names_def map_of_eq_None_iff)

text \<open>
  C5, as the claim states it, fails: for the memberships \<^verbatim>\<open>{"foo": True}\<close>, whose only
  name is not registered, the claimed result keeps \<^verbatim>\<open>"foo": True\<close>, and the decoded
  mapping has no entry for \<^verbatim>\<open>"foo"\<close>.
\<close>

theorem decode_encode_unknown_name_counterexample:
  "map_of (flags_to_dict_matches (dict_matches_to_flags [(''foo'', True)])) ''foo'' = None \<and>
   registry_expansion [(''foo'', True)] ''foo'' = Some True"
  by (simp add: flags_to_dict_matches_at registry_expansion_def flag_mapping_def)

text \<open>
  C5, amended: for every memberships mapping \<open>m\<close>, also one with names that are not
  registered, \<^verbatim>\<open>decode(encode(m))\<close> is \<open>m\<close> extended with \<open>False\<close> for every registered
  name absent from \<open>m\<close> and then restricted to the registered names: the names that
  are not registered are dropped.
\<close>

theorem decode_encode_registry_expansion:
  assumes "distinct (map fst m)"
  shows "map_of (flags_to_dict_matches (dict_matches_to_flags m)) =
         registry_expansion m |` set registry_names"
proof
  fix name
  show "map_of (flags_to_dict_matches (dict_matches_to_flags m)) name =
        (registry_expansion m |` set registry_names) name"
  proof (cases "map_of flag_mapping name")
    case None
    then have "name \<notin> set registry_names"
      by (simp add: registered_iff)
    with None show ?thesis
      by (simp add: flags_to_dict_matches_at restrict_map_def)
  next
    case (Some k)
    then have reg: "name \<in> set registry_names"
      by (simp add: registered_iff)
    have inj: "\<And>n'. map_of flag_mapping n' = Some k \<Longrightarrow> n' = name"
      using Some by (rule flag_mapping_inj [rotated])
    have "bit (dict_matches_to_flags m) k \<longleftrightarrow> (name, True) \<in> set m"
    proof
      assume "bit (dict_matches_to_flags m) k"
      then obtain n' where n': "(n', True) \<in> set m" "map_of flag_mapping n' = Some k"
        unfolding bit_dict_matches_to_flags by blast
      from inj [OF n'(2)] n'(1) show "(name, True) \<in> set m" by simp
    next
      assume "(name, True) \<in> set m"
      with Some show "bit (dict_matches_to_flags m) k"
        unfolding bit_dict_matches_to_flags by blast
    qed
    also have "\<dots> \<longleftrightarrow> map_of m name = Some True"
      using assms by simp
    finally have "bit (dict_matches_to_flags m) k \<longleftrightarrow> map_of m name = Some True" .
    with Some reg show ?thesis
      by (cases "map_of m name")
         (simp_all add: flags_to_dict_matches_at restrict_map_def registry_expansion_def)
  qed
qed

theorem decode_encode_registry_expansion_witness:
  "distinct (map fst [(''wordle'', True), (''wwf'', False), (''foo'', True)]) \<and>
   map_of (flags_to_dict_matches
             (dict_matches_to_flags [(''wordle'', True), (''wwf'', False), (''foo'', True)])) =
   registry_expansion [(''wordle'', True), (''wwf'', False), (''foo'', True)]
     |` set registry_names"
proof -
  have d: "distinct (map fst [(''wordle'', True), (''wwf'', False), (''foo'', True)])"
    by simp
  from d decode_encode_registry_expansion [OF d] show ?thesis by blast
qed

section \<open>Properties of the word store\<close>

text \<open>
  C10: for every store and every length \<open>L\<close>, \<^verbatim>\<open>get_words_by_length(L, limit=0)\<close>
  returns what the call without a limit returns, and that is the complete result for
  \<open>L\<close>: every stored row of length \<open>L\<close>, each once, with more points first. A limit
  of 0 is no limit; it does not return zero rows.
\<close>

theorem limit_zero_is_no_limit:
  "get_words_by_length d len (Some 0) = get_words_by_length d len None \<and>
   mset (get_words_by_length d len (Some 0)) =
     image_mset row_to_word_dict (filter_mset (\<lambda>r. row_length r = len) (mset (words_table d))) \<and>
   sorted (map (\<lambda>w. - wd_points w) (get_words_by_length d len (Some 0)))"
proof -
  have "map (\<lambda>w. - wd_points w) (get_words_by_length d len (Some 0)) =
        map (\<lambda>r. - row_points r)
          (sort_key (\<lambda>r. - row_points r) (filter (\<lambda>r. row_length r = len) (words_table d)))"
    by (simp add: get_words_by_length_def order_by_points_desc_def row_to_word_dict_def comp_def)
  then have "sorted (map (\<lambda>w. - wd_points w) (get_words_by_length d len (Some 0)))"
    by (simp only: sorted_sort_key)
  then show ?thesis
    by (simp add: get_words_by_length_def order_by_points_desc_def)
qed

theorem limit_zero_is_no_limit_witness:
  "get_words_by_length six_word_store 4 (Some 0) = get_words_by_length six_word_store 4 None \<and>
   map wd_word (get_words_by_length six_word_store 4 (Some 0)) =
     [''abcd'', ''ijkl'', ''efgh'', ''qrst'', ''mnop'', ''uvwx''] \<and>
   map wd_word (get_words_by_length six_word_store 4 (Some 3)) = [''abcd'', ''ijkl'', ''efgh'']"
proof -
  have "map wd_word (get_words_by_length six_word_store 4 (Some 0)) =
          [''abcd'', ''ijkl'', ''efgh'', ''qrst'', ''mnop'', ''uvwx'']"
    and "map wd_word (get_words_by_length six_word_store 4 (Some 3)) =
          [''abcd'', ''ijkl'', ''efgh'']"
    by (simp_all add: get_words_by_length_def order_by_points_desc_def sql_limit_def
                      row_to_word_dict_def)
  with limit_zero_is_no_limit [of six_word_store 4] show ?thesis by simp
qed

subsection \<open>What a batch upsert writes\<close>

lemma word_data_Inr:
  "word_data ws = Inr tuples \<Longrightarrow>
     tuples = map tuple_of ws \<and> (\<forall>i\<in>set ws. wi_word i \<noteq> None)"
  by (induction ws arbitrary: tuples)
     (auto simp: tuple_of_def Let_def split: option.splits sum.splits)

lemma insert_words_batch_Inr:
  assumes "insert_words_batch d ws now = Inr (n, d1)"
  shows "d1 = fold (insert_or_replace now) (map tuple_of ws) d \<and>
         (\<forall>i\<in>set ws. wi_word i \<noteq> None)"
proof (cases "ws = []")
  case True
  with assms show ?thesis by (simp add: insert_words_batch_def)
next
  case False
  with assms obtain tuples where
    "word_data ws = Inr tuples" "d1 = fold (insert_or_replace now) tuples d"
    by (auto simp: insert_words_batch_def split: sum.splits if_splits)
  then show ?thesis by (auto dest: word_data_Inr)
qed

lemma words_insert_or_replace:
  "words_table (insert_or_replace now (w, l, p, f) d) =
     filter (\<lambda>r. row_word r \<noteq> w) (words_table d) @
       [\<lparr>row_id = Suc (seq d), row_word = w, row_length = l, row_points = p,
         row_dict_flags = f, row_created_at = now, row_updated_at = now\<rparr>]"
  by (simp add: insert_or_replace_def)

lemma stored_words_insert_or_replace:
  "row_word ` set (words_table (insert_or_replace now (w, l, p, f) d)) =
   insert w (row_word ` set (words_table d))"
  by (auto simp: words_insert_or_replace)

lemma stored_words_fold:
  "row_word ` set (words_table (fold (insert_or_replace now) tuples d)) =
   fst ` set tuples \<union> row_word ` set (words_table d)"
proof (induction tuples arbitrary: d)
  case Nil
  then show ?case by simp
next
  case (Cons t tuples)
  obtain u l p f where t: "t = (u, l, p, f)" by (cases t)
  show ?case by (simp add: t Cons.IH stored_words_insert_or_replace)
qed

subsection \<open>The invariants of the table\<close>

lemma store_ok_insert_or_replace:
  "store_ok d \<Longrightarrow> store_ok (insert_or_replace now (w, int (length w), p, f) d)"
  by (auto simp: store_ok_def insert_or_replace_def distinct_map_filter)

lemma store_ok_fold:
  "store_ok d \<Longrightarrow> store_ok (fold (insert_or_replace now) (map tuple_of ws) d)"
  by (induction ws arbitrary: d) (simp_all add: tuple_of_def store_ok_insert_or_replace)

lemma store_ok_insert_words_batch:
  assumes "store_ok d" "insert_words_batch d ws now = Inr (n, d1)"
  shows "store_ok d1"
  using assms insert_words_batch_Inr [OF assms(2)] by (simp add: store_ok_fold)

lemma reachable_store_ok: "reachable d \<Longrightarrow> store_ok d"
proof (induction rule: reachable.induct)
  case reachable_init
  then show ?case by (simp add: store_ok_def init_database_def)
next
  case (reachable_insert d ws now n d1)
  then show ?case by (blast intro: store_ok_insert_words_batch)
qed

lemma example_first_upsert:
  "insert_words_batch init_database [abcd_first] 100 = Inr (1, store_after_first)"
  by (simp add: insert_words_batch_def sqlite_integer_def insert_or_replace_def
                init_database_def dict_matches_to_flags_def)

lemma example_second_upsert:
  "insert_words_batch store_after_first [abcd_second] 200 = Inr (1, store_after_second)"
  by (simp add: insert_words_batch_def sqlite_integer_def insert_or_replace_def
                dict_matches_to_flags_def flag_mapping_def)

text \<open>
  C9: in every store that a sequence of batch upserts produces from the empty table,
  every row's length column is the length of the row's word.
\<close>

theorem stored_length_is_word_length:
  "reachable d \<Longrightarrow> r \<in> set (words_table d) \<Longrightarrow> row_length r = int (length (row_word r))"
  using reachable_store_ok [of d] by (simp add: store_ok_def)

theorem stored_length_is_word_length_witness:
  "reachable store_after_second \<and>
   \<lparr>row_id = 2, row_word = ''abcd'', row_length = 4, row_points = 7,
    row_dict_flags = 16, row_created_at = 200, row_updated_at = 200\<rparr>
     \<in> set (words_table store_after_second) \<and>
   row_length \<lparr>row_id = 2, row_word = ''abcd'', row_length = 4, row_points = 7,
               row_dict_flags = 16, row_created_at = 200, row_updated_at = 200\<rparr> =
   int (length (row_word \<lparr>row_id = 2, row_word = ''abcd'', row_length = 4, row_points = 7,
               row_dict_flags = 16, row_created_at = 200, row_updated_at = 200\<rparr>))"
proof -
  have "reachable store_after_first"
    using reachable_init example_first_upsert by (rule reachable_insert)
  then have r: "reachable store_after_second"
    using example_second_upsert by (rule reachable_insert)
  have m: "\<lparr>row_id = 2, row_word = ''abcd'', row_length = 4, row_points = 7,
            row_dict_flags = 16, row_created_at = 200, row_updated_at = 200\<rparr>
             \<in> set (words_table store_after_second)"
    by simp
  from r m stored_length_is_word_length [OF r m] show ?thesis by blast
qed

subsection \<open>Writing a word again\<close>

lemma rows_of_word_same:
  "filter (\<lambda>r. row_word r = w) (words_table (insert_or_replace now (w, l, p, f) d)) =
     [\<lparr>row_id = Suc (seq d), row_word = w, row_length = l, row_points = p,
       row_dict_flags = f, row_created_at = now, row_updated_at = now\<rparr>]"
  by (simp add: words_insert_or_replace)

lemma rows_of_word_other:
  "u \<noteq> w \<Longrightarrow>
   filter (\<lambda>r. row_word r = w) (words_table (insert_or_replace now (u, l, p, f) d)) =
   filter (\<lambda>r. row_word r = w) (words_table d)"
  by (auto simp: words_insert_or_replace intro: filter_cong)

lemma rows_of_word_fold_other:
  "w \<notin> fst ` set tuples \<Longrightarrow>
   filter (\<lambda>r. row_word r = w) (words_table (fold (insert_or_replace now) tuples d)) =
   filter (\<lambda>r. row_word r = w) (words_table d)"
proof (induction tuples arbitrary: d)
  case Nil
  then show ?case by simp
next
  case (Cons t tuples)
  obtain u l p f where t: "t = (u, l, p, f)" by (cases t)
  with Cons.prems have "u \<noteq> w" "w \<notin> fst ` set tuples" by auto
  then show ?case by (simp add: t Cons.IH rows_of_word_other)
qed

lemma rows_of_word_fold_last:
  assumes "w \<notin> fst ` set post"
  shows "\<exists>i. filter (\<lambda>r. row_word r = w)
           (words_table (fold (insert_or_replace now) (pre @ (w, l, p, f) # post) d)) =
         [\<lparr>row_id = i, row_word = w, row_length = l, row_points = p,
           row_dict_flags = f, row_created_at = now, row_updated_at = now\<rparr>]"
  using assms by (simp add: rows_of_word_fold_other rows_of_word_same)

lemma mset_filter_distinct_word:
  assumes "distinct (map row_word rs)" "r \<in> set rs"
  shows "mset (filter (\<lambda>x. row_word x \<noteq> row_word r) rs) = mset rs - {#r#}"
  using assms
proof (induction rs)
  case Nil
  then show ?case by simp
next
  case (Cons a rs)
  show ?case
  proof (cases "a = r")
    case True
    with Cons.prems have "\<forall>x\<in>set rs. row_word x \<noteq> row_word r"
      by (auto simp: image_iff)
    then have "filter (\<lambda>x. row_word x \<noteq> row_word r) rs = rs" by simp
    with True show ?thesis by simp
  next
    case False
    with Cons.prems have "r \<in> set rs" "row_word a \<noteq> row_word r" by auto
    with Cons show ?thesis by simp
  qed
qed

lemma lengths_insert_or_replace_stored:
  assumes "store_ok d" "w \<in> row_word ` set (words_table d)"
  shows "mset (map row_length
                 (words_table (insert_or_replace now (w, int (length w), p, f) d))) =
         mset (map row_length (words_table d))"
proof -
  from assms(2) obtain r where r: "r \<in> set (words_table d)" "row_word r = w" by auto
  with assms(1) have len: "row_length r = int (length w)"
    and dist: "distinct (map row_word (words_table d))"
    by (auto simp: store_ok_def)
  have "mset (filter (\<lambda>x. row_word x \<noteq> w) (words_table d)) = mset (words_table d) - {#r#}"
    using mset_filter_distinct_word [OF dist r(1)] r(2) by simp
  then have "mset (map row_length (filter (\<lambda>x. row_word x \<noteq> w) (words_table d))) =
             image_mset row_length (mset (words_table d) - {#r#})"
    by (simp only: mset_map)
  also have "\<dots> = image_mset row_length (mset (words_table d)) - {#row_length r#}"
    using r(1) by (simp add: image_mset_Diff)
  finally have removed:
    "mset (map row_length (filter (\<lambda>x. row_word x \<noteq> w) (words_table d))) =
     image_mset row_length (mset (words_table d)) - {#int (length w)#}"
    by (simp add: len)
  have "int (length w) \<in># image_mset row_length (mset (words_table d))"
    using r(1) len by force
  then have "add_mset (int (length w))
               (image_mset row_length (mset (words_table d)) - {#int (length w)#}) =
             image_mset row_length (mset (words_table d))"
    by (rule insert_DiffM)
  with removed show ?thesis
    by (simp add: words_insert_or_replace)
qed

lemma lengths_fold_stored:
  assumes "store_ok d" "\<forall>i\<in>set ws. wi_word i \<in> Some ` row_word ` set (words_table d)"
  shows "mset (map row_length
                 (words_table (fold (insert_or_replace now) (map tuple_of ws) d))) =
         mset (map row_length (words_table d))"
  using assms
proof (induction ws arbitrary: d)
  case Nil
  then show ?case by simp
next
  case (Cons i ws)
  let ?w = "the (wi_word i)"
  let ?d1 = "insert_or_replace now (tuple_of i) d"
  from Cons.prems(2) have w: "?w \<in> row_word ` set (words_table d)" by auto
  obtain p f where t: "tuple_of i = (?w, int (length ?w), p, f)"
    by (simp add: tuple_of_def)
  have ok1: "store_ok ?d1"
    unfolding t using Cons.prems(1) by (rule store_ok_insert_or_replace)
  have st1: "row_word ` set (words_table ?d1) = row_word ` set (words_table d)"
    unfolding t using w by (simp add: stored_words_insert_or_replace insert_absorb)
  have l1: "mset (map row_length (words_table ?d1)) = mset (map row_length (words_table d))"
    unfolding t using Cons.prems(1) w by (rule lengths_insert_or_replace_stored)
  have "mset (map row_length
                (words_table (fold (insert_or_replace now) (map tuple_of ws) ?d1))) =
        mset (map row_length (words_table ?d1))"
    using Cons.prems(2) by (intro Cons.IH ok1) (simp add: st1)
  with l1 show ?case by simp
qed

lemma length_filter_count:
  "length (filter (\<lambda>r. f r = v) xs) = count (mset (map f xs)) v"
  by (induction xs) simp_all

lemma length_distribution_cong:
  assumes "mset (map row_length (words_table d1)) = mset (map row_length (words_table d2))"
  shows "get_length_distribution d1 = get_length_distribution d2"
proof -
  have cnt: "\<And>d len. length (filter (\<lambda>r. row_length r = len) (words_table d)) =
               count (mset (map row_length (words_table d))) len"
    by (rule length_filter_count)
  have "set (map row_length (words_table d1)) = set (map row_length (words_table d2))"
    using assms by (rule mset_eq_setD)
  then have "sort (remdups (map row_length (words_table d1))) =
             sort (remdups (map row_length (words_table d2)))"
    by (simp add: sorted_list_of_set_sort_remdups [symmetric])
  then show ?thesis
    unfolding get_length_distribution_def cnt assms by simp
qed

text \<open>
  A batch that writes only words that are stored already leaves the result of
  \<^verbatim>\<open>get_length_distribution\<close> as it was.
\<close>

lemma rewrite_keeps_length_distribution:
  assumes "reachable d1"
    and "insert_words_batch d1 batch2 t2 = Inr (n2, d2)"
    and "\<forall>i\<in>set batch2. wi_word i \<in> Some ` row_word ` set (words_table d1)"
  shows "get_length_distribution d2 = get_length_distribution d1"
proof -
  from assms(2) have d2: "d2 = fold (insert_or_replace t2) (map tuple_of batch2) d1"
    by (auto dest: insert_words_batch_Inr)
  from assms(1) have "store_ok d1" by (rule reachable_store_ok)
  then have "mset (map row_length (words_table d2)) =
             mset (map row_length (words_table d1))"
    unfolding d2 using assms(3) by (rule lengths_fold_stored)
  then show ?thesis by (rule length_distribution_cong)
qed

subsection \<open>Counting the rows of a length\<close>

lemma count_by_length:
  assumes "store_ok d"
  shows "length (filter (\<lambda>r. row_length r = len) (words_table d)) =
         card {w \<in> row_word ` set (words_table d). int (length w) = len}"
proof -
  let ?rs = "filter (\<lambda>r. row_length r = len) (words_table d)"
  from assms have dist: "distinct (map row_word (words_table d))"
    and ok: "\<forall>r\<in>set (words_table d). row_length r = int (length (row_word r))"
    by (simp_all add: store_ok_def)
  from dist have "distinct (map row_word ?rs)"
    by (rule distinct_map_filter)
  then have "length ?rs = card (set (map row_word ?rs))"
    by (metis distinct_card length_map)
  also have "set (map row_word ?rs) = {w \<in> row_word ` set (words_table d). int (length w) = len}"
    using ok by auto
  finally show ?thesis .
qed

lemma map_of_length_distribution:
  "map_of (get_length_distribution d) len =
     (if len \<in> row_length ` set (words_table d)
      then Some (length (filter (\<lambda>r. row_length r = len) (words_table d)))
      else None)"
  by (simp add: get_length_distribution_def map_of_map_restrict restrict_map_def)

lemma stored_words_insert_words_batch:
  assumes "insert_words_batch d ws now = Inr (n, d1)"
  shows "row_word ` set (words_table d1) =
         {v. Some v \<in> wi_word ` set ws} \<union> row_word ` set (words_table d)"
proof -
  from insert_words_batch_Inr [OF assms]
  have d1: "d1 = fold (insert_or_replace now) (map tuple_of ws) d"
    and some: "\<forall>i\<in>set ws. wi_word i \<noteq> None" by simp_all
  have "fst ` set (map tuple_of ws) = {v. Some v \<in> wi_word ` set ws}"
  proof (intro set_eqI iffI)
    fix v assume "v \<in> fst ` set (map tuple_of ws)"
    then obtain i where i: "i \<in> set ws" "v = the (wi_word i)"
      by (auto simp: tuple_of_def)
    with some have "wi_word i = Some v" by auto
    with i(1) show "v \<in> {v. Some v \<in> wi_word ` set ws}" by force
  next
    fix v assume "v \<in> {v. Some v \<in> wi_word ` set ws}"
    then obtain i where "i \<in> set ws" "wi_word i = Some v" by force
    then show "v \<in> fst ` set (map tuple_of ws)"
      by (force simp: tuple_of_def)
  qed
  then show ?thesis
    unfolding d1 stored_words_fold by simp
qed

lemma example_second_upsert_and_new:
  "insert_words_batch store_after_first [abcd_second, efgh_new] 200 =
   Inr (2, store_after_second_and_new)"
  by (simp add: insert_words_batch_def sqlite_integer_def insert_or_replace_def
                dict_matches_to_flags_def flag_mapping_def)

text \<open>
  C1, as the claim states it, fails in its last part: the word \<^verbatim>\<open>abcd\<close> is upserted,
  and then a second batch upserts \<^verbatim>\<open>abcd\<close> with other points together with the new
  word \<^verbatim>\<open>efgh\<close>. Both calls write \<^verbatim>\<open>abcd\<close>, and the count that
  \<^verbatim>\<open>get_length_distribution\<close> reports for length 4 is 1 before the second call and 2
  after it.
\<close>

theorem upsert_twice_count_counterexample:
  "insert_words_batch init_database [abcd_first] 100 = Inr (1, store_after_first) \<and>
   insert_words_batch store_after_first [abcd_second, efgh_new] 200 =
     Inr (2, store_after_second_and_new) \<and>
   get_length_distribution store_after_first = [(4, 1)] \<and>
   get_length_distribution store_after_second_and_new = [(4, 2)]"
  using example_first_upsert example_second_upsert_and_new
  by (simp add: get_length_distribution_def)

text \<open>
  C1, amended: take a store that the write path can produce and two batch upserts, one
  after the other, that both write the word \<open>w\<close>; \<open>info\<close> is the last record for \<open>w\<close>
  in the second batch. Then the store afterwards has exactly one row for \<open>w\<close>, and that
  row carries the points and the flags of \<open>info\<close> and nothing of what was stored
  before. The count that \<^verbatim>\<open>get_length_distribution\<close> reports for the length of \<open>w\<close>
  grows in the second call by the number of words of that length that the second batch
  writes and that were not stored before it, and by nothing else: the word \<open>w\<close> itself
  adds nothing, and the count is unchanged when the second batch brings no new word
  of that length.
\<close>

theorem upsert_twice_replaces:
  assumes reach: "reachable d"
    and first: "insert_words_batch d batch1 t1 = Inr (n1, d1)"
    and second: "insert_words_batch d1 batch2 t2 = Inr (n2, d2)"
    and in_first: "Some w \<in> wi_word ` set batch1"
    and in_second: "batch2 = pre @ info # post" "wi_word info = Some w"
                   "Some w \<notin> wi_word ` set post"
  shows "(\<exists>r. filter (\<lambda>r. row_word r = w) (words_table d2) = [r] \<and>
              row_points r = (case wi_points info of None \<Rightarrow> 0 | Some p \<Rightarrow> p) \<and>
              row_dict_flags r =
                dict_matches_to_flags
                  (case wi_dict_matches info of None \<Rightarrow> [] | Some dm \<Rightarrow> dm)) \<and>
         (\<exists>c. map_of (get_length_distribution d1) (int (length w)) = Some c \<and>
              map_of (get_length_distribution d2) (int (length w)) =
                Some (c + card {v. Some v \<in> wi_word ` set batch2 \<and> length v = length w \<and>
                                   v \<notin> row_word ` set (words_table d1)}))"
proof -
  let ?len = "int (length w)"
  let ?new = "{v. Some v \<in> wi_word ` set batch2 \<and> length v = length w \<and>
                  v \<notin> row_word ` set (words_table d1)}"
  from second have d2: "d2 = fold (insert_or_replace t2) (map tuple_of batch2) d1"
    and some2: "\<forall>i\<in>set batch2. wi_word i \<noteq> None"
    by (auto dest: insert_words_batch_Inr)
  have r1: "reachable d1" using reach first by (rule reachable_insert)
  then have r2: "reachable d2" using second by (rule reachable_insert)
  from r1 have ok1: "store_ok d1" by (rule reachable_store_ok)
  from r2 have ok2: "store_ok d2" by (rule reachable_store_ok)
  obtain p f where info: "tuple_of info = (w, int (length w), p, f)"
    and p: "p = (case wi_points info of None \<Rightarrow> 0 | Some p \<Rightarrow> p)"
    and f: "f = dict_matches_to_flags
                  (case wi_dict_matches info of None \<Rightarrow> [] | Some dm \<Rightarrow> dm)"
    using in_second(2) by (simp add: tuple_of_def)
  have "w \<notin> fst ` set (map tuple_of post)"
  proof
    assume "w \<in> fst ` set (map tuple_of post)"
    then obtain i where i: "i \<in> set post" "the (wi_word i) = w"
      by (auto simp: tuple_of_def)
    with some2 in_second(1) have "wi_word i = Some w" by auto
    with i(1) in_second(3) show False by force
  qed
  then have one: "\<exists>i. filter (\<lambda>r. row_word r = w) (words_table d2) =
         [\<lparr>row_id = i, row_word = w, row_length = int (length w), row_points = p,
           row_dict_flags = f, row_created_at = t2, row_updated_at = t2\<rparr>]"
    unfolding d2 in_second(1) map_append list.map info
    by (rule rows_of_word_fold_last)
  have st1: "w \<in> row_word ` set (words_table d1)"
    using in_first unfolding stored_words_insert_words_batch [OF first] by simp
  have st2: "row_word ` set (words_table d2) =
             {v. Some v \<in> wi_word ` set batch2} \<union> row_word ` set (words_table d1)"
    using second by (rule stored_words_insert_words_batch)
  with st1 have st2w: "w \<in> row_word ` set (words_table d2)" by simp
  have in1: "?len \<in> row_length ` set (words_table d1)"
  proof -
    from st1 obtain r where "r \<in> set (words_table d1)" "row_word r = w" by auto
    moreover with ok1 have "row_length r = ?len" by (simp add: store_ok_def)
    ultimately show ?thesis by force
  qed
  have in2: "?len \<in> row_length ` set (words_table d2)"
  proof -
    from st2w obtain r where "r \<in> set (words_table d2)" "row_word r = w" by auto
    moreover with ok2 have "row_length r = ?len" by (simp add: store_ok_def)
    ultimately show ?thesis by force
  qed
  let ?A1 = "{v \<in> row_word ` set (words_table d1). int (length v) = ?len}"
  let ?A2 = "{v \<in> row_word ` set (words_table d2). int (length v) = ?len}"
  have split: "?A2 = ?A1 \<union> ?new" "?A1 \<inter> ?new = {}"
    unfolding st2 by auto
  have fin: "finite ?A1" by simp
  have "finite {v. Some v \<in> wi_word ` set batch2}"
  proof -
    have "{v. Some v \<in> wi_word ` set batch2} \<subseteq> the ` (wi_word ` set batch2)"
    proof
      fix v assume "v \<in> {v. Some v \<in> wi_word ` set batch2}"
      then have "the (Some v) \<in> the ` (wi_word ` set batch2)"
        by (intro imageI) simp
      then show "v \<in> the ` (wi_word ` set batch2)" by simp
    qed
    then show ?thesis by (rule finite_subset) simp
  qed
  then have fin_new: "finite ?new"
    by (rule rev_finite_subset) auto
  have "card ?A2 = card ?A1 + card ?new"
    unfolding split(1) using fin fin_new split(2) by (rule card_Un_disjoint)
  then have counts: "length (filter (\<lambda>r. row_length r = ?len) (words_table d2)) =
                     length (filter (\<lambda>r. row_length r = ?len) (words_table d1)) + card ?new"
    by (simp only: count_by_length [OF ok1] count_by_length [OF ok2])
  have "map_of (get_length_distribution d1) ?len =
          Some (length (filter (\<lambda>r. row_length r = ?len) (words_table d1)))"
    using in1 by (simp only: map_of_length_distribution if_True)
  moreover have "map_of (get_length_distribution d2) ?len =
          Some (length (filter (\<lambda>r. row_length r = ?len) (words_table d1)) + card ?new)"
    using in2 counts by (simp only: map_of_length_distribution if_True)
  ultimately have "\<exists>c. map_of (get_length_distribution d1) ?len = Some c \<and>
              map_of (get_length_distribution d2) ?len = Some (c + card ?new)"
    by blast
  moreover from one p f have "\<exists>r. filter (\<lambda>r. row_word r = w) (words_table d2) = [r] \<and>
              row_points r = (case wi_points info of None \<Rightarrow> 0 | Some p \<Rightarrow> p) \<and>
              row_dict_flags r =
                dict_matches_to_flags
                  (case wi_dict_matches info of None \<Rightarrow> [] | Some dm \<Rightarrow> dm)"
    by auto
  ultimately show ?thesis by blast
qed

theorem upsert_twice_replaces_witness:
  "reachable init_database \<and>
   insert_words_batch init_database [abcd_first] 100 = Inr (1, store_after_first) \<and>
   insert_words_batch store_after_first [abcd_second, efgh_new] 200 =
     Inr (2, store_after_second_and_new) \<and>
   Some ''abcd'' \<in> wi_word ` set [abcd_first] \<and>
   [abcd_second, efgh_new] = [] @ abcd_second # [efgh_new] \<and>
   wi_word abcd_second = Some ''abcd'' \<and>
   Some ''abcd'' \<notin> wi_word ` set [efgh_new] \<and>
   (\<exists>r. filter (\<lambda>r. row_word r = ''abcd'') (words_table store_after_second_and_new) = [r] \<and>
        row_points r = 7 \<and> row_dict_flags r = dict_matches_to_flags [(''wordle'', True)]) \<and>
   map_of (get_length_distribution store_after_first) 4 = Some 1 \<and>
   map_of (get_length_distribution store_after_second_and_new) 4 = Some 2"
proof -
  have h: "Some ''abcd'' \<in> wi_word ` set [abcd_first]"
    "[abcd_second, efgh_new] = [] @ abcd_second # [efgh_new]"
    "wi_word abcd_second = Some ''abcd''"
    "Some ''abcd'' \<notin> wi_word ` set [efgh_new]"
    by simp_all
  have new: "{v. Some v \<in> wi_word ` set [abcd_second, efgh_new] \<and>
                 length v = length ''abcd'' \<and>
                 v \<notin> row_word ` set (words_table store_after_first)} = {''efgh''}"
    by auto
  have before: "map_of (get_length_distribution store_after_first) 4 = Some 1"
    by (simp add: get_length_distribution_def)
  from upsert_twice_replaces [OF reachable_init example_first_upsert example_second_upsert_and_new h]
  have "(\<exists>r. filter (\<lambda>r. row_word r = ''abcd'') (words_table store_after_second_and_new) = [r] \<and>
        row_points r = 7 \<and> row_dict_flags r = dict_matches_to_flags [(''wordle'', True)]) \<and>
        map_of (get_length_distribution store_after_second_and_new) 4 = Some 2"
    unfolding new using before by simp
  with reachable_init example_first_upsert example_second_upsert_and_new h before
  show ?thesis by simp
qed


text \<open>
  C4, on the code: the word \<^verbatim>\<open>abcd\<close> is upserted at the clock reading 100 and again
  at 200. After the first call its row has \<^verbatim>\<open>created_at\<close> 100; after the second call
  the row has \<^verbatim>\<open>created_at\<close> 200, as it has \<^verbatim>\<open>updated_at\<close> 200, and a new id.
\<close>

theorem reupsert_resets_created_at:
  "insert_words_batch init_database [abcd_first] 100 = Inr (1, store_after_first) \<and>
   map row_created_at (words_table store_after_first) = [100] \<and>
   insert_words_batch store_after_first [abcd_second] 200 = Inr (1, store_after_second) \<and>
   map row_created_at (words_table store_after_second) = [200] \<and>
   map row_updated_at (words_table store_after_second) = [200]"
  using example_first_upsert example_second_upsert by simp

section \<open>Properties of the search\<close>

lemma example_abc_upsert:
  "insert_words_batch init_database [abc_info] 1 = Inr (1, abc_store)"
  by (simp add: insert_words_batch_def sqlite_integer_def insert_or_replace_def
                init_database_def dict_matches_to_flags_def)

lemma mset_order_by_points_desc_backwards:
  "mset (order_by_points_desc_backwards rs) = mset rs"
  by (simp add: order_by_points_desc_backwards_def)




section \<open>Properties of the merge\<close>

lemma merge_with_database_result:
  "merge_with_database m new_words len is_partial now =
   Inr (new_words \<noteq> [] \<and> (\<exists>r. insert_words_batch (store m) new_words now = Inr r),
        m\<lparr>merge_log := merge_log m @ [(new_words, len, is_partial)],
          store := (case insert_words_batch (store m) new_words now of
                      Inl e \<Rightarrow> store m
                    | Inr (n, d) \<Rightarrow> d)\<rparr>)"
  by (auto simp: merge_with_database_def Let_def insert_words_batch_def
           split: sum.splits if_splits)

lemma merged_eq:
  "merged m all_words len is_partial now =
     m\<lparr>merge_log := merge_log m @ [(all_words, len, is_partial)],
       store := (case insert_words_batch (store m) all_words now of
                   Inl e \<Rightarrow> store m
                 | Inr (n, d) \<Rightarrow> d)\<rparr>"
  by (simp add: merged_def merge_with_database_result)

lemma should_exit_merged [simp]:
  "should_exit (merged m all_words len is_partial now) = should_exit m"
  by (simp add: merged_eq should_exit_def)

lemma merge_log_do_request [simp]:
  "merge_log (snd (do_request remote ps k m)) = merge_log m"
  by (simp add: do_request_def Let_def request_exit_def)

lemma request_log_do_request [simp]:
  "request_log (snd (do_request remote ps k m)) = request_log m @ [(ps, k)]"
  by (simp add: do_request_def Let_def request_exit_def)

lemma request_log_merged [simp]:
  "request_log (merged m all_words len is_partial now) = request_log m"
  by (simp add: merged_eq)

lemma merge_log_merged [simp]:
  "merge_log (merged m all_words len is_partial now) = merge_log m @ [(all_words, len, is_partial)]"
  by (simp add: merged_eq)

lemma logs_request_exit [simp]:
  "request_log (request_exit m) = request_log m" "merge_log (request_exit m) = merge_log m"
  by (simp_all add: request_exit_def)

text \<open>
  C3, as the claim states it, fails: on the batch of one record that has no word,
  \<^verbatim>\<open>insert_words_batch\<close> raises \<^verbatim>\<open>KeyError\<close>, and \<^verbatim>\<open>merge_with_database\<close> returns
  \<^verbatim>\<open>False\<close> for this batch, which is not empty; the error does not reach the caller.
\<close>

theorem merge_swallows_store_error_counterexample:
  "[wordless_info] \<noteq> [] \<and>
   insert_words_batch (store (fresh_manager None)) [wordless_info] 1 = Inl KeyError \<and>
   merge_with_database (fresh_manager None) [wordless_info] 4 False 1 =
     Inr (False, (fresh_manager None)\<lparr>merge_log := [([wordless_info], 4, False)]\<rparr>)"
  by (simp add: merge_with_database_def insert_words_batch_def)

text \<open>
  C3, amended: \<^verbatim>\<open>merge_with_database\<close> never raises. It returns \<^verbatim>\<open>True\<close> when the batch
  is not empty and the store operation succeeds, and \<^verbatim>\<open>False\<close> otherwise: for an empty
  batch, and for a batch on which the store operation raises an error, which is caught
  and leaves the store as it was.
\<close>

theorem merge_catches_store_errors:
  "merge_with_database m new_words len is_partial now =
   Inr (new_words \<noteq> [] \<and> (\<exists>r. insert_words_batch (store m) new_words now = Inr r),
        m\<lparr>merge_log := merge_log m @ [(new_words, len, is_partial)],
          store := (case insert_words_batch (store m) new_words now of
                      Inl e \<Rightarrow> store m
                    | Inr (n, d) \<Rightarrow> d)\<rparr>)"
  by (rule merge_with_database_result)

section \<open>Properties of the fetch of one length\<close>

lemma pages_run_append:
  "pages_run remote len page_size done m all_words = Some (m1, collected) \<Longrightarrow>
   fetch_remaining_pages remote now len page_size (done @ rest) m all_words =
   fetch_remaining_pages remote now len page_size rest m1 collected"
proof (induction "done" arbitrary: m all_words)
  case Nil
  then show ?case by simp
next
  case (Cons page_num "done")
  from Cons.prems have ne: "\<not> should_exit m"
    by (auto split: if_splits)
  show ?case
  proof (cases "fst (do_request remote \<lparr>p_length = len, p_page_size = page_size,
                       p_page_token = Some (page_num - 1)\<rparr> (length all_words) m)")
    case RequestError
    with Cons.prems ne show ?thesis
      by (auto simp: Let_def Cons.IH split: if_splits)
  next
    case (WordPages pw)
    with Cons.prems ne show ?thesis
      by (simp add: Let_def Cons.IH)
  qed
qed

lemma pages_run_merge_log:
  "pages_run remote len page_size done m all_words = Some (m1, collected) \<Longrightarrow>
   merge_log m1 = merge_log m"
proof (induction "done" arbitrary: m all_words)
  case Nil
  then show ?case by simp
next
  case (Cons page_num "done")
  from Cons.prems have ne: "\<not> should_exit m"
    by (auto split: if_splits)
  show ?case
  proof (cases "fst (do_request remote \<lparr>p_length = len, p_page_size = page_size,
                       p_page_token = Some (page_num - 1)\<rparr> (length all_words) m)")
    case RequestError
    with Cons.prems ne show ?thesis
      by (auto simp: Let_def dest!: Cons.IH split: if_splits)
  next
    case (WordPages pw)
    with Cons.prems ne show ?thesis
      by (auto simp: Let_def dest!: Cons.IH)
  qed
qed

text \<open>
  A stop asked for before the fetch starts: the check before the first request returns
  the empty list; nothing is requested and nothing is merged.
\<close>

lemma cancel_before_first_request:
  "should_exit m \<Longrightarrow> fetch_all_words remote now m len page_size = (m, [])"
  by (simp add: fetch_all_words_def)



lemmas eval_defs =
  fetch_all_words_def do_request_def should_exit_def request_exit_def Let_def merged_eq
  insert_words_batch_def sqlite_integer_def insert_or_replace_def init_database_def
  dict_matches_to_flags_def


text \<open>
  The scenario of the specification: without a stop the fetch collects the six words
  and merges them as complete, and the three best words of length 4 are then
  \<^verbatim>\<open>abcd\<close>, \<^verbatim>\<open>ijkl\<close>, \<^verbatim>\<open>efgh\<close>; with a stop asked for during the first request it
  returns the two words of page 1, merged as partial, and the store holds these two.
\<close>

lemma scenario_complete_fetch:
  "fetch_all_words (three_pages 0) 50 (fresh_manager (Some False)) 4 2 =
   (\<lparr>signal_handler = Some False,
     store = \<lparr>words_table = [stored_row 1 ''abcd'' 10, stored_row 2 ''efgh'' 7,
                stored_row 3 ''ijkl'' 9, stored_row 4 ''mnop'' 3,
                stored_row 5 ''qrst'' 5, stored_row 6 ''uvwx'' 1], seq = 6\<rparr>,
     merge_log = [(all_pages, 4, False)],
     request_log = [(first_request, 0), (page_request 1, 2), (page_request 2, 4)]\<rparr>,
    all_pages)"
  by (simp add: eval_defs)

lemma scenario_top_three:
  "map wd_word (get_words_by_length
     (store (fst (fetch_all_words (three_pages 0) 50 (fresh_manager (Some False)) 4 2)))
     4 (Some 3)) = [''abcd'', ''ijkl'', ''efgh'']"
  unfolding scenario_complete_fetch
  by (simp add: get_words_by_length_def order_by_points_desc_def sql_limit_def row_to_word_dict_def)

lemma scenario_cancel_after_page_one:
  "fetch_all_words (three_pages 1) 50 (fresh_manager (Some False)) 4 2 =
   (\<lparr>signal_handler = Some True,
     store = \<lparr>words_table = [stored_row 1 ''abcd'' 10, stored_row 2 ''efgh'' 7], seq = 2\<rparr>,
     merge_log = [(page_one, 4, True)],
     request_log = [(first_request, 0)]\<rparr>,
    page_one)"
  by (simp add: eval_defs)

section \<open>Properties of the fetch with a word cap\<close>

lemma length_extended:
  assumes "int (length all_words) < max_words"
  shows "int (length (all_words @
            py_prefix (min (int (length page_words)) (max_words - int (length all_words)))
              page_words)) \<le> max_words"
  using assms by (auto simp: py_prefix_def min_def)

lemma capped_after_request:
  assumes "int k < max_words"
    and "capped max_words (snd (do_request remote ps k m)) result"
  shows "capped max_words m result"
  using assms by (auto simp: capped_def)

lemma limit_remaining_pages_capped:
  assumes "int (length all_words) < max_words"
  shows "capped max_words m
           (limit_remaining_pages remote now len page_size max_words actual_pages_to_fetch
              pages m all_words pages_fetched)"
  using assms
proof (induction pages arbitrary: m all_words pages_fetched)
  case Nil
  then show ?case by (simp add: capped_def)
next
  case (Cons page_num rest)
  let ?ps = "\<lparr>p_length = len, p_page_size = page_size, p_page_token = Some (page_num - 1)\<rparr>"
  let ?sent = "do_request remote ?ps (length all_words) m"
  let ?m1 = "snd ?sent"
  have nz: "max_words \<noteq> 0" using Cons.prems by auto
  show ?case
  proof (cases "should_exit m")
    case True
    with Cons.prems show ?thesis by (simp add: capped_def)
  next
    case False
    have "capped max_words ?m1
           (limit_remaining_pages remote now len page_size max_words actual_pages_to_fetch
              (page_num # rest) m all_words pages_fetched)"
    proof (cases "fst ?sent")
      case RequestError
      show ?thesis
      proof (cases "should_exit ?m1")
        case True
        with False RequestError Cons.prems show ?thesis
          by (simp add: Let_def capped_def)
      next
        case ne: False
        with False RequestError Cons.IH [OF Cons.prems] show ?thesis
          by (simp add: Let_def)
      qed
    next
      case (WordPages page_word_pages)
      show ?thesis
      proof (cases page_word_pages)
        case Nil
        show ?thesis
        proof (cases "actual_pages_to_fetch \<le> pages_fetched + 1")
          case True
          with False WordPages Nil nz Cons.prems show ?thesis
            by (simp add: Let_def capped_def)
        next
          case more: False
          with False WordPages Nil nz Cons.IH [OF Cons.prems] show ?thesis
            by (simp add: Let_def)
        qed
      next
        case page: (Cons first_page others)
        let ?page_words = "case word_list first_page of None \<Rightarrow> [] | Some ws \<Rightarrow> ws"
        let ?extended = "all_words @
            py_prefix (min (int (length ?page_words)) (max_words - int (length all_words)))
              ?page_words"
        have le: "int (length ?extended) \<le> max_words"
          using Cons.prems by (rule length_extended)
        show ?thesis
        proof (cases "max_words \<le> int (length ?extended)")
          case True
          with False WordPages page nz le show ?thesis
            by (simp add: Let_def capped_def)
        next
          case lt: False
          then have less: "int (length ?extended) < max_words" by simp
          show ?thesis
          proof (cases "actual_pages_to_fetch \<le> pages_fetched + 1")
            case True
            with False WordPages page nz lt le show ?thesis
              by (simp add: Let_def capped_def)
          next
            case more: False
            with False WordPages page nz lt Cons.IH [OF less] show ?thesis
              by (simp add: Let_def)
          qed
        qed
      qed
    qed
    with Cons.prems show ?thesis
      by (rule capped_after_request)
  qed
qed


lemma length_first_page:
  assumes "1 \<le> max_words"
  shows "int (length (py_prefix (min (int (length ws)) max_words) ws)) \<le> max_words"
  using assms by (auto simp: py_prefix_def min_def)

text \<open>
  C7: with a word cap \<open>max_words\<close> of at least 1 (the window accepts no other cap),
  the fetch returns at most \<open>max_words\<close> words; every request that it sends, it sends
  while fewer than \<open>max_words\<close> words are collected, so no request follows the moment the
  cap is reached; and when the cap is reached, the fetch has called the merge exactly
  once, with the words it returns and \<^verbatim>\<open>is_partial=True\<close>.
\<close>

theorem word_cap_never_exceeded:
  assumes cap: "1 \<le> max_words"
    and run: "fetch_with_limit remote now m len page_size max_words = (m2, collected)"
  shows "int (length collected) \<le> max_words \<and>
         (\<forall>e\<in>set (drop (length (request_log m)) (request_log m2)). int (snd e) < max_words) \<and>
         (max_words \<le> int (length collected) \<longrightarrow>
            merge_log m2 = merge_log m @ [(collected, len, True)])"
proof -
  let ?ps = "\<lparr>p_length = len, p_page_size = page_size, p_page_token = None\<rparr>"
  let ?sent = "do_request remote ?ps 0 m"
  let ?m1 = "snd ?sent"
  have nz: "max_words \<noteq> 0" using cap by simp
  have key: "int (length collected) \<le> max_words \<and>
         (\<exists>new. request_log m2 = request_log m @ new \<and> (\<forall>e\<in>set new. int (snd e) < max_words)) \<and>
         (max_words \<le> int (length collected) \<longrightarrow>
            merge_log m2 = merge_log m @ [(collected, len, True)])"
  proof (cases "should_exit m")
    case True
    with run cap show ?thesis by (auto simp: fetch_with_limit_def)
  next
    case False
    show ?thesis
    proof (cases "fst ?sent")
      case RequestError
      with run False cap show ?thesis
        by (auto simp: fetch_with_limit_def Let_def)
    next
      case (WordPages word_pages)
      show ?thesis
      proof (cases word_pages)
        case Nil
        with run False WordPages cap show ?thesis
          by (auto simp: fetch_with_limit_def Let_def)
      next
        case page: (Cons first_page others)
        let ?total_pages = "case num_pages first_page of None \<Rightarrow> 1 | Some n \<Rightarrow> n"
        let ?total_words = "case num_words first_page of None \<Rightarrow> 0 | Some n \<Rightarrow> n"
        let ?actual = "if max_words \<noteq> 0 \<and> max_words < ?total_words
                       then (case estimated_pages max_words page_size of
                               Inl e \<Rightarrow> Inl e
                             | Inr estimated \<Rightarrow> Inr (min estimated ?total_pages))
                       else Inr ?total_pages"
        let ?fpw = "case word_list first_page of None \<Rightarrow> [] | Some ws \<Rightarrow> ws"
        let ?all = "py_prefix (min (int (length ?fpw)) max_words) ?fpw"
        have le: "int (length ?all) \<le> max_words"
          using cap by (rule length_first_page)
        show ?thesis
        proof (cases ?actual)
          case (Inl e)
          with run False WordPages page cap show ?thesis
            by (auto simp: fetch_with_limit_def Let_def)
        next
          case (Inr actual_pages_to_fetch)
          show ?thesis
          proof (cases "max_words \<le> int (length ?all)")
            case True
            with run False WordPages page Inr nz le cap show ?thesis
              by (auto simp: fetch_with_limit_def Let_def)
          next
            case lt: False
            show ?thesis
            proof (cases "should_exit ?m1")
              case True
              with run False WordPages page Inr nz lt cap show ?thesis
                by (auto simp: fetch_with_limit_def Let_def)
            next
              case go: False
              let ?loop = "limit_remaining_pages remote now len page_size max_words
                             actual_pages_to_fetch [2..?total_pages] ?m1 ?all 1"
              from lt have "int (length ?all) < max_words" by simp
              then have c: "capped max_words ?m1 ?loop"
                by (rule limit_remaining_pages_capped)
              from run False WordPages page Inr nz lt go
              have res: "m2 = merged (fst ?loop) (snd ?loop) len
                                ((max_words \<noteq> 0 \<and> max_words \<le> int (length (snd ?loop))) \<or>
                                 should_exit (fst ?loop)) now"
                 "collected = snd ?loop"
                by (auto simp: fetch_with_limit_def Let_def split: prod.splits)
              from c cap show ?thesis
                unfolding res capped_def by auto
            qed
          qed
        qed
      qed
    qed
  qed
  then obtain new where "request_log m2 = request_log m @ new"
    "\<forall>e\<in>set new. int (snd e) < max_words" by blast
  then have "\<forall>e\<in>set (drop (length (request_log m)) (request_log m2)). int (snd e) < max_words"
    by simp
  with key show ?thesis by blast
qed


lemma scenario_capped:
  "fetch_with_limit (three_pages 0) 50 (fresh_manager (Some False)) 4 2 3 =
   (\<lparr>signal_handler = Some False,
     store = \<lparr>words_table = [stored_row 1 ''abcd'' 10, stored_row 2 ''efgh'' 7,
                stored_row 3 ''ijkl'' 9], seq = 3\<rparr>,
     merge_log = [([scored ''abcd'' 10, scored ''efgh'' 7, scored ''ijkl'' 9], 4, True)],
     request_log = [(first_request, 0), (page_request 1, 2)]\<rparr>,
    [scored ''abcd'' 10, scored ''efgh'' 7, scored ''ijkl'' 9])"
  by (simp add: fetch_with_limit_def estimated_pages_def py_prefix_def eval_defs)

theorem word_cap_never_exceeded_witness:
  "(1::int) \<le> 3 \<and>
   fetch_with_limit (three_pages 0) 50 (fresh_manager (Some False)) 4 2 3 =
   (\<lparr>signal_handler = Some False,
     store = \<lparr>words_table = [stored_row 1 ''abcd'' 10, stored_row 2 ''efgh'' 7,
                stored_row 3 ''ijkl'' 9], seq = 3\<rparr>,
     merge_log = [([scored ''abcd'' 10, scored ''efgh'' 7, scored ''ijkl'' 9], 4, True)],
     request_log = [(first_request, 0), (page_request 1, 2)]\<rparr>,
    [scored ''abcd'' 10, scored ''efgh'' 7, scored ''ijkl'' 9]) \<and>
   int (length [scored ''abcd'' 10, scored ''efgh'' 7, scored ''ijkl'' 9]) \<le> 3 \<and>
   int (snd (first_request, 0::nat)) < 3 \<and> int (snd (page_request 1, 2::nat)) < 3"
proof -
  have cap: "(1::int) \<le> 3" by simp
  from word_cap_never_exceeded [OF cap scenario_capped] cap scenario_capped show ?thesis
    by simp
qed

section \<open>Properties of the sequential fetch of several lengths\<close>

text \<open>
  C8, on the code: the lengths 3 and 4 are fetched in sequence, the first request for
  length 3 fails, and the remote service has six words of length 4. With a signal
  handler installed, the result is \<^verbatim>\<open>{3: [], 4: []}\<close> and no request for length 4 is
  sent: the failure has set the handler's flag, and the fetch of length 4 returns at
  its first check. Without a handler the result is \<^verbatim>\<open>{3: [], 4: [the six words]}\<close>.
\<close>

theorem sequential_error_stops_later_lengths:
  "fetch_multiple_lengths_sequential (three_pages 0) 50 (fresh_manager (Some False)) [3, 4] 2 =
     (\<lparr>signal_handler = Some True, store = init_database, merge_log = [],
       request_log = [(\<lparr>p_length = 3, p_page_size = 2, p_page_token = None\<rparr>, 0)]\<rparr>,
      [3 \<mapsto> [], 4 \<mapsto> []]) \<and>
   snd (fetch_multiple_lengths_sequential (three_pages 0) 50 (fresh_manager None) [3, 4] 2) =
     [3 \<mapsto> [], 4 \<mapsto> all_pages]"
  by (simp add: fetch_multiple_lengths_sequential_def fetch_single_length_with_progress_def
                eval_defs)


end
